theory Spec2Isabelle
  imports Main "HOL-Library.Sublist"
begin

section \<open>Text: characters, lower-casing and character classes\<close>

text \<open>
  Python strings are sequences of Unicode code points. The model takes the code points
  0..255 (Latin-1), one \<^typ>\<open>char\<close> each, so a text is a \<^typ>\<open>string\<close>. On this range
  \<open>str.lower()\<close> works character by character: it adds 32 to \<open>A-Z\<close> (65..90) and to the
  capital letters 192..214 and 216..222, and leaves every other character alone.
\<close>

definition code :: "char \<Rightarrow> nat" where
  "code c = of_char c"

definition char_lower :: "char \<Rightarrow> char" where
  "char_lower c =
     (if (65 \<le> code c \<and> code c \<le> 90) \<or> (192 \<le> code c \<and> code c \<le> 214) \<or>
         (216 \<le> code c \<and> code c \<le> 222)
      then char_of (code c + 32) else c)"

definition lower :: "string \<Rightarrow> string" where
  "lower s = map char_lower s"

text \<open>
  The classes of the \<open>re\<close> module on a \<open>str\<close> pattern: \<open>\w\<close> is an alphanumeric
  character or the underscore, \<open>\s\<close> is a whitespace character, and \<open>.\<close> is any
  character but the newline.
\<close>

definition isword :: "char \<Rightarrow> bool" where
  "isword c =
     ((48 \<le> code c \<and> code c \<le> 57) \<or> (65 \<le> code c \<and> code c \<le> 90) \<or> code c = 95 \<or>
      (97 \<le> code c \<and> code c \<le> 122) \<or> code c = 170 \<or> code c = 178 \<or> code c = 179 \<or>
      code c = 181 \<or> code c = 185 \<or> code c = 186 \<or> (188 \<le> code c \<and> code c \<le> 190) \<or>
      (192 \<le> code c \<and> code c \<le> 214) \<or> (216 \<le> code c \<and> code c \<le> 246) \<or>
      248 \<le> code c)"

definition isspace :: "char \<Rightarrow> bool" where
  "isspace c =
     ((9 \<le> code c \<and> code c \<le> 13) \<or> (28 \<le> code c \<and> code c \<le> 32) \<or>
      code c = 133 \<or> code c = 160)"

section \<open>Regular expressions as compiled by \<open>re.compile(p, re.IGNORECASE)\<close>\<close>

text \<open>
  The patterns of the safety module use literals, \<open>.\<close>, \<open>\s\<close>, \<open>\b\<close>, groups with
  alternatives, and repetition of a single-character item (\<open>.{0,20}\<close>, \<open>\s+\<close>,
  \<open>\s*\<close>, \<open>s?\<close>). \<open>Rep a lo hi\<close> repeats the item \<open>a\<close> at least \<open>lo\<close> times and at
  most \<open>hi\<close> times (\<open>None\<close>: no upper bound).
\<close>

datatype atom = Lit char | Dot | Space

datatype regex =
    Str string
  | One atom
  | Boundary
  | Rep atom nat "nat option"
  | Cat "regex list"
  | Or "regex list"

text \<open>
  A cursor is a position in the searched text: the character before it, if any, and the
  text from it on. \<open>\b\<close> holds where exactly one of the two neighbours is a word
  character; the start and the end of the text count as non-word.
\<close>

type_synonym cursor = "char option \<times> string"

fun at_boundary :: "cursor \<Rightarrow> bool" where
  "at_boundary (prev, rest) =
     ((case prev of None \<Rightarrow> False | Some c \<Rightarrow> isword c) \<noteq>
      (case rest of [] \<Rightarrow> False | c # _ \<Rightarrow> isword c))"

text \<open>With \<open>re.IGNORECASE\<close> a literal matches a character of either case.\<close>

fun accepts :: "atom \<Rightarrow> char \<Rightarrow> bool" where
  "accepts (Lit a) c = (char_lower c = char_lower a)"
| "accepts Dot c = (c \<noteq> CHR 0x0A)"
| "accepts Space c = isspace c"

fun one :: "atom \<Rightarrow> cursor \<Rightarrow> cursor list" where
  "one a (prev, []) = []"
| "one a (prev, c # cs) = (if accepts a c then [(Some c, cs)] else [])"

fun lit :: "string \<Rightarrow> cursor \<Rightarrow> cursor list" where
  "lit [] cur = [cur]"
| "lit (a # as) (prev, []) = []"
| "lit (a # as) (prev, c # cs) = (if accepts (Lit a) c then lit as (Some c, cs) else [])"

fun rep :: "atom \<Rightarrow> nat \<Rightarrow> nat option \<Rightarrow> cursor \<Rightarrow> cursor list" where
  "rep a lo hi (prev, []) = (if lo = 0 then [(prev, [])] else [])"
| "rep a lo hi (prev, c # cs) =
     (if lo = 0 then [(prev, c # cs)] else []) @
     (if hi \<noteq> Some 0 \<and> accepts a c
      then rep a (lo - 1) (map_option (\<lambda>h. h - 1) hi) (Some c, cs) else [])"

text \<open>
  \<open>ends r cur\<close> lists the cursors at which a match of \<open>r\<close> that starts at \<open>cur\<close> can
  end. The engine of \<open>re\<close> backtracks over all of them, so a search succeeds exactly
  when some start has an end.
\<close>

fun ends :: "regex \<Rightarrow> cursor \<Rightarrow> cursor list" where
  "ends (Str s) cur = lit s cur"
| "ends (One a) cur = one a cur"
| "ends Boundary cur = (if at_boundary cur then [cur] else [])"
| "ends (Rep a lo hi) cur = rep a lo hi cur"
| "ends (Cat []) cur = [cur]"
| "ends (Cat (r # rs)) cur = concat (map (ends (Cat rs)) (ends r cur))"
| "ends (Or []) cur = []"
| "ends (Or (r # rs)) cur = ends r cur @ ends (Or rs) cur"

fun search_from :: "regex \<Rightarrow> char option \<Rightarrow> string \<Rightarrow> bool" where
  "search_from r prev [] = (ends r (prev, []) \<noteq> [])"
| "search_from r prev (c # cs) = (ends r (prev, c # cs) \<noteq> [] \<or> search_from r (Some c) cs)"

definition search :: "regex \<Rightarrow> string \<Rightarrow> bool" where
  "search r s = search_from r None s"


section \<open>The safety module\<close>

record SafetyCheck =
  is_safe :: bool
  reason :: string
  suggestion :: string

subsection \<open>Rule tables\<close>

text \<open>
  \<open>HARMFUL_PATTERNS\<close>: each rule is a pattern and a description, in the order of the
  source. The comment before each rule is the pattern as the source writes it.
\<close>

definition HARMFUL_PATTERNS :: "(regex \<times> string) list" where
  \<open>HARMFUL_PATTERNS = [
     \<comment> \<open>\<^verbatim>\<open>\b(write|create|give|provide|show).{0,20}(exploit|payload|shellcode)\b\<close>\<close>
     (Cat [Boundary, Or [Str ''write'', Str ''create'', Str ''give'', Str ''provide'', Str ''show''],
           Rep Dot 0 (Some 20), Or [Str ''exploit'', Str ''payload'', Str ''shellcode''], Boundary],
      ''exploit/payload creation''),
     \<comment> \<open>\<^verbatim>\<open>\b(reverse|bind).{0,10}shell\b\<close>\<close>
     (Cat [Boundary, Or [Str ''reverse'', Str ''bind''], Rep Dot 0 (Some 10), Str ''shell'', Boundary],
      ''reverse/bind shell creation''),
     \<comment> \<open>\<^verbatim>\<open>\bhow\s+to\s+(hack|exploit|breach|break\s+into)\b\<close>\<close>
     (Cat [Boundary, Str ''how'', Rep Space 1 None, Str ''to'', Rep Space 1 None,
           Or [Str ''hack'', Str ''exploit'', Str ''breach'',
               Cat [Str ''break'', Rep Space 1 None, Str ''into'']], Boundary],
      ''intrusion guidance''),
     \<comment> \<open>\<^verbatim>\<open>\b(write|create|give|provide).{0,20}(malware|virus|trojan|ransomware|keylogger|rootkit)\b\<close>\<close>
     (Cat [Boundary, Or [Str ''write'', Str ''create'', Str ''give'', Str ''provide''],
           Rep Dot 0 (Some 20),
           Or [Str ''malware'', Str ''virus'', Str ''trojan'', Str ''ransomware'', Str ''keylogger'',
               Str ''rootkit''], Boundary],
      ''malware creation''),
     \<comment> \<open>\<^verbatim>\<open>\bmalware.{0,15}(code|source|script)\b\<close>\<close>
     (Cat [Boundary, Str ''malware'', Rep Dot 0 (Some 15),
           Or [Str ''code'', Str ''source'', Str ''script''], Boundary],
      ''malware code request''),
     \<comment> \<open>\<^verbatim>\<open>\b(crack|brute\s*force|steal).{0,15}(password|credential|hash)\b\<close>\<close>
     (Cat [Boundary, Or [Str ''crack'', Cat [Str ''brute'', Rep Space 0 None, Str ''force''], Str ''steal''],
           Rep Dot 0 (Some 15), Or [Str ''password'', Str ''credential'', Str ''hash''], Boundary],
      ''credential attacks''),
     \<comment> \<open>\<^verbatim>\<open>\bhash.{0,10}(crack|break)\b\<close>\<close>
     (Cat [Boundary, Str ''hash'', Rep Dot 0 (Some 10), Or [Str ''crack'', Str ''break''], Boundary],
      ''password hash cracking''),
     \<comment> \<open>\<^verbatim>\<open>\bbypass.{0,15}(authentication|firewall|antivirus|edr|security)\b\<close>\<close>
     (Cat [Boundary, Str ''bypass'', Rep Dot 0 (Some 15),
           Or [Str ''authentication'', Str ''firewall'', Str ''antivirus'', Str ''edr'', Str ''security''],
           Boundary],
      ''security bypass''),
     \<comment> \<open>\<^verbatim>\<open>\b(evade|avoid).{0,15}(detection|antivirus|edr)\b\<close>\<close>
     (Cat [Boundary, Or [Str ''evade'', Str ''avoid''], Rep Dot 0 (Some 15),
           Or [Str ''detection'', Str ''antivirus'', Str ''edr''], Boundary],
      ''detection evasion''),
     \<comment> \<open>\<^verbatim>\<open>\b(ddos|dos)\s*(attack|script|tool)\b\<close>\<close>
     (Cat [Boundary, Or [Str ''ddos'', Str ''dos''], Rep Space 0 None,
           Or [Str ''attack'', Str ''script'', Str ''tool''], Boundary],
      ''denial of service''),
     \<comment> \<open>\<^verbatim>\<open>\bman.in.the.middle\s*(attack|how)\b\<close>\<close>
     (Cat [Boundary, Str ''man'', One Dot, Str ''in'', One Dot, Str ''the'', One Dot, Str ''middle'',
           Rep Space 0 None, Or [Str ''attack'', Str ''how''], Boundary],
      ''MITM attack''),
     \<comment> \<open>\<^verbatim>\<open>\bsql\s*injection.{0,15}(payload|bypass|code)\b\<close>\<close>
     (Cat [Boundary, Str ''sql'', Rep Space 0 None, Str ''injection'', Rep Dot 0 (Some 15),
           Or [Str ''payload'', Str ''bypass'', Str ''code''], Boundary],
      ''SQL injection payload''),
     \<comment> \<open>\<^verbatim>\<open>\bxss.{0,15}(payload|bypass|code)\b\<close>\<close>
     (Cat [Boundary, Str ''xss'', Rep Dot 0 (Some 15),
           Or [Str ''payload'', Str ''bypass'', Str ''code''], Boundary],
      ''XSS payload''),
     \<comment> \<open>\<^verbatim>\<open>\b(without|no).{0,15}(permission|authorization|consent)\b\<close>\<close>
     (Cat [Boundary, Or [Str ''without'', Str ''no''], Rep Dot 0 (Some 15),
           Or [Str ''permission'', Str ''authorization'', Str ''consent''], Boundary],
      ''unauthorized access''),
     \<comment> \<open>\<^verbatim>\<open>\baccess.{0,15}(someone|other|victim).{0,10}(account|system|network)\b\<close>\<close>
     (Cat [Boundary, Str ''access'', Rep Dot 0 (Some 15),
           Or [Str ''someone'', Str ''other'', Str ''victim''], Rep Dot 0 (Some 10),
           Or [Str ''account'', Str ''system'', Str ''network''], Boundary],
      ''unauthorized system access'')]\<close>

text \<open>\<open>DEFENSIVE_CONTEXT\<close>: every entry is \<open>\b...\b\<close> around a word or a short phrase.\<close>

definition word :: "string \<Rightarrow> regex" where
  "word w = Cat [Boundary, Str w, Boundary]"

definition DEFENSIVE_CONTEXT :: "regex list" where
  \<open>DEFENSIVE_CONTEXT = [
     word ''defend'', word ''defense'', word ''defensive'',
     word ''protect'', word ''protection'',
     word ''detect'', word ''detection'',
     word ''prevent'', word ''prevention'',
     word ''mitigate'', word ''mitigation'',
     word ''harden'', word ''hardening'',
     word ''secure'', word ''securing'',
     word ''lab'',
     \<comment> \<open>\<^verbatim>\<open>\btest\s*environment\b\<close>\<close>
     Cat [Boundary, Str ''test'', Rep Space 0 None, Str ''environment'', Boundary],
     word ''authorized'', word ''permission'',
     word ''understand'',
     \<comment> \<open>\<^verbatim>\<open>\bhow\s*it\s*works\b\<close>\<close>
     Cat [Boundary, Str ''how'', Rep Space 0 None, Str ''it'', Rep Space 0 None, Str ''works'', Boundary],
     \<comment> \<open>\<^verbatim>\<open>\bindicators?\b\<close>\<close>
     Cat [Boundary, Str ''indicator'', Rep (Lit CHR ''s'') 0 (Some 1), Boundary],
     word ''ioc'',
     word ''forensic'', word ''analysis'']\<close>

subsection \<open>\<open>SafetyFilter\<close>\<close>

text \<open>
  \<open>_get_safe_alternative\<close>: the dictionary is walked in insertion order and the first
  key that is a substring of the topic decides. \<open>str_in k t\<close> is Python's \<open>k in t\<close>.
\<close>

fun str_in :: "string \<Rightarrow> string \<Rightarrow> bool" where
  "str_in k [] = (k = [])"
| "str_in k (c # cs) = (prefix k (c # cs) \<or> str_in k cs)"

definition alternatives :: "(string \<times> string) list" where
  "alternatives = [
     (''exploit/payload creation'',
      ''I can explain how exploits work conceptually, discuss CVE details, '' @
      ''or help you set up detection for exploit attempts.''),
     (''reverse/bind shell creation'',
      ''I can explain what reverse shells are, how to detect them in network traffic, '' @
      ''and how to harden systems against them.''),
     (''intrusion guidance'',
      ''I can help you understand attack techniques for defensive purposes, '' @
      ''set up authorized penetration testing, or improve your security posture.''),
     (''malware creation'',
      ''I can explain malware behavior, help you analyze samples safely, '' @
      ''or set up detection rules for malware indicators.''),
     (''credential attacks'',
      ''I can help you implement strong authentication, detect credential attacks, '' @
      ''and set up password policies and monitoring.''),
     (''security bypass'',
      ''I can help you test your security controls legitimately, '' @
      ''improve defense-in-depth, and detect bypass attempts.''),
     (''detection evasion'',
      ''I can help improve your detection capabilities, understand evasion techniques '' @
      ''for better defense, and tune your security tools.''),
     (''denial of service'',
      ''I can help you protect against DoS attacks, set up rate limiting, '' @
      ''and implement DDoS mitigation strategies.''),
     (''SQL injection payload'',
      ''I can help you understand SQL injection for defensive purposes, '' @
      ''implement input validation, and set up WAF rules.''),
     (''XSS payload'',
      ''I can help you understand XSS for defensive purposes, '' @
      ''implement CSP headers, and sanitize user input.''),
     (''unauthorized access'',
      ''I can only help with authorized security testing. '' @
      ''I can assist with setting up proper authorization for pentests.'')]"

definition fallback :: string where
  "fallback =
     ''I can help you understand this topic from a defensive perspective, '' @
     ''set up detection, or improve your security posture.''"

fun first_alternative :: "(string \<times> string) list \<Rightarrow> string \<Rightarrow> string" where
  "first_alternative [] topic = fallback"
| "first_alternative ((key, sugg) # rest) topic =
     (if str_in key topic then sugg else first_alternative rest topic)"

definition get_safe_alternative :: "string \<Rightarrow> string" where
  "get_safe_alternative topic = first_alternative alternatives topic"

text \<open>
  \<open>check_input\<close>: the loop over the rules. Besides the result, \<open>scan\<close> returns the rules
  whose pattern the loop has searched for, in order, so that an early return can be
  told from a full pass. \<open>has_defensive_context\<close> is the \<open>any(...)\<close> over the
  defensive patterns.
\<close>

fun has_defensive_context :: "regex list \<Rightarrow> string \<Rightarrow> bool" where
  "has_defensive_context [] text_lower = False"
| "has_defensive_context (dp # dps) text_lower =
     (search dp text_lower \<or> has_defensive_context dps text_lower)"

definition blocked :: "string \<Rightarrow> SafetyCheck" where
  "blocked description =
     \<lparr>is_safe = False,
      reason = ''Request appears to involve '' @ description,
      suggestion = get_safe_alternative description\<rparr>"

definition safe :: SafetyCheck where
  "safe = \<lparr>is_safe = True, reason = ''Input appears safe'', suggestion = []\<rparr>"

fun scan :: "(regex \<times> string) list \<Rightarrow> regex list \<Rightarrow> string \<Rightarrow>
    SafetyCheck \<times> (regex \<times> string) list" where
  "scan [] dps text_lower = (safe, [])"
| "scan ((pattern, description) # rest) dps text_lower =
     (if search pattern text_lower then
        (if \<not> has_defensive_context dps text_lower
         then (blocked description, [(pattern, description)])
         else (case scan rest dps text_lower of
                 (res, seen) \<Rightarrow> (res, (pattern, description) # seen)))
      else (case scan rest dps text_lower of
              (res, seen) \<Rightarrow> (res, (pattern, description) # seen)))"

definition check_input :: "string \<Rightarrow> SafetyCheck" where
  "check_input text = fst (scan HARMFUL_PATTERNS DEFENSIVE_CONTEXT (lower text))"

definition rules_searched :: "string \<Rightarrow> (regex \<times> string) list" where
  "rules_searched text = snd (scan HARMFUL_PATTERNS DEFENSIVE_CONTEXT (lower text))"

text \<open>
  \<open>get_safety_response\<close>: the refusal template. The shield emoji that opens it (U+1F6E1,
  U+FE0F) lies outside the modelled character range and is written as its UTF-8 bytes.
\<close>

definition get_safety_response :: "SafetyCheck \<Rightarrow> string" where
  "get_safety_response check =
     [CHR 0xF0, CHR 0x9F, CHR 0x9B, CHR 0xA1, CHR 0xEF, CHR 0xB8, CHR 0x8F] @
     '' **Safety Notice**'' @ [CHR 0x0A, CHR 0x0A] @
     ''I can't help with requests that could enable '' @ lower (reason check) @ ''.'' @
     [CHR 0x0A, CHR 0x0A] @
     ''**What I can help with instead:**'' @ [CHR 0x0A] @
     suggestion check @ [CHR 0x0A, CHR 0x0A] @
     ''**Safe alternatives:**'' @ [CHR 0x0A] @
     ''- Explain the technique at a conceptual level'' @ [CHR 0x0A] @
     ''- Set up detection and monitoring'' @ [CHR 0x0A] @
     ''- Implement defensive controls'' @ [CHR 0x0A] @
     ''- Practice in authorized lab environments'' @ [CHR 0x0A] @
     ''- Study for security certifications'' @ [CHR 0x0A, CHR 0x0A] @
     ''Would you like me to help with any of these instead?''"

definition check_safety :: "string \<Rightarrow> bool \<times> string" where
  "check_safety text =
     (let check = check_input text
      in if is_safe check then (True, []) else (False, get_safety_response check))"

subsection \<open>The global formula\<close>

text \<open>
  The classification as a single formula over the whole text, for comparison with the
  loop: the text is allowed when no harmful pattern matches it or when some defensive
  pattern matches it; otherwise it is blocked with the first matching rule.
\<close>

definition check_input_global :: "string \<Rightarrow> SafetyCheck" where
  "check_input_global text =
     (let text_lower = lower text in
      case find (\<lambda>r. search (fst r) text_lower) HARMFUL_PATTERNS of
        None \<Rightarrow> safe
      | Some r \<Rightarrow>
          if list_ex (\<lambda>dp. search dp text_lower) DEFENSIVE_CONTEXT then safe
          else blocked (snd r))"

section \<open>Conversation history (\<open>modules/ai_engine.py\<close>)\<close>

record Message =
  role :: string
  content :: string

record Conversation =
  messages :: "Message list"
  max_history :: int

definition new_conversation :: Conversation where
  "new_conversation = \<lparr>messages = [], max_history = 20\<rparr>"

text \<open>
  \<open>slice_from xs i\<close> is Python's \<open>xs[i:]\<close>: a negative start counts from the end, and a
  start beyond either end is clamped. In particular \<open>xs[-0:]\<close> is \<open>xs[0:]\<close>, the whole
  list.
\<close>

definition slice_from :: "'a list \<Rightarrow> int \<Rightarrow> 'a list" where
  "slice_from xs i =
     (if i < 0 then drop (nat (int (length xs) + i)) xs else drop (nat i) xs)"

definition is_system :: "Message \<Rightarrow> bool" where
  "is_system m = (role m = ''system'')"

definition add_message :: "Conversation \<Rightarrow> string \<Rightarrow> string \<Rightarrow> Conversation" where
  "add_message self r c =
     (let msgs = messages self @ [\<lparr>role = r, content = c\<rparr>] in
      if int (length msgs) > max_history self then
        (let system_msgs = filter is_system msgs;
             other_msgs = filter (\<lambda>m. \<not> is_system m) msgs
         in self\<lparr>messages :=
              system_msgs @
              slice_from other_msgs (- (max_history self - int (length system_msgs)))\<rparr>)
      else self\<lparr>messages := msgs\<rparr>)"

text \<open>A sequence of \<open>add_message\<close> calls, each given as a role and a content.\<close>

fun add_messages :: "Conversation \<Rightarrow> (string \<times> string) list \<Rightarrow> Conversation" where
  "add_messages self [] = self"
| "add_messages self ((r, c) # calls) = add_messages (add_message self r c) calls"

section \<open>Front ends\<close>

text \<open>
  Every front end checks the input with \<open>check_safety\<close> and then calls the engine's
  \<open>chat\<close>. The engine is outside the model: \<open>ai\<close> gives, for the text it is called
  with, either the response (\<open>Inr\<close>) or the message of the exception it raises
  (\<open>Inl\<close>). Each front end returns what it shows or returns to the user together with
  the list of texts the engine was called with.
\<close>

type_synonym engine = "string \<Rightarrow> string + string"

subsection \<open>Command line: \<open>Spider.chat\<close> in \<open>main.py\<close>\<close>

datatype shown = Print string | Speak string

text \<open>The spoken summary: \<open>'. '.join(response.split('. ')[:2])\<close>.\<close>

fun split_period :: "string \<Rightarrow> string \<Rightarrow> string list" where
  "split_period acc [] = [rev acc]"
| "split_period acc [c] = [rev (c # acc)]"
| "split_period acc (a # b # cs) =
     (if a = CHR ''.'' \<and> b = CHR '' '' then rev acc # split_period [] cs
      else split_period (a # acc) (b # cs))"

fun join_period :: "string list \<Rightarrow> string" where
  "join_period [] = []"
| "join_period [s] = s"
| "join_period (s # t # ss) = s @ ''. '' @ join_period (t # ss)"

definition cli_chat :: "engine \<Rightarrow> bool \<Rightarrow> string \<Rightarrow> shown list \<times> string list" where
  "cli_chat ai voice user_input =
     (case check_safety user_input of (ok, safety_message) \<Rightarrow>
        if \<not> ok then
          (Print safety_message #
           (if voice
            then [Speak ''I can't help with that request, but I can offer safe alternatives.'']
            else []),
           [])
        else
          (case ai user_input of
             Inr response \<Rightarrow>
               ([Print ''[dim]Thinking...[/dim]'', Print [], Print response] @
                (if voice then [Speak (join_period (take 2 (split_period [] response)))] else []),
                [user_input])
           | Inl e \<Rightarrow>
               ([Print ''[dim]Thinking...[/dim]'', Print (''[red]Error: '' @ e @ ''[/red]'')],
                [user_input])))"

subsection \<open>Web endpoint: \<open>chat\<close> in \<open>web_app.py\<close>\<close>

datatype reply =
    JSONResponse_error string nat
  | Response string
  | HTTPException nat string

definition web_chat :: "engine \<Rightarrow> string \<Rightarrow> reply \<times> string list" where
  "web_chat ai message =
     (case check_safety message of (ok, safety_message) \<Rightarrow>
        if \<not> ok then (JSONResponse_error safety_message 400, [])
        else
          (case ai message of
             Inr response \<Rightarrow> (Response response, [message])
           | Inl e \<Rightarrow> (HTTPException 500 e, [message])))"

subsection \<open>Gradio: \<open>chat_with_spider\<close> in \<open>app.py\<close>\<close>

text \<open>The cross mark that opens an error text (U+274C), as its UTF-8 bytes.\<close>

definition cross_mark :: string where
  "cross_mark = [CHR 0xE2, CHR 0x9D, CHR 0x8C]"

definition chat_with_spider ::
    "engine \<Rightarrow> string \<Rightarrow> (string \<times> string) list \<Rightarrow>
     (string \<times> (string \<times> string) list) \<times> string list" where
  "chat_with_spider ai message chat_history =
     (case check_safety message of (ok, safety_message) \<Rightarrow>
        if \<not> ok then ((safety_message, chat_history), [])
        else
          (case ai message of
             Inr response \<Rightarrow> ((response, chat_history @ [(message, response)]), [message])
           | Inl e \<Rightarrow>
               (let error_msg = cross_mark @ '' Error: '' @ e
                in ((error_msg, chat_history @ [(message, error_msg)]), [message]))))"

subsection \<open>Gradio, stand-alone: \<open>chat_interface\<close> in \<open>app_standalone.py\<close>\<close>

text \<open>
  \<open>not message.strip()\<close> holds when every character of the message is whitespace.
  \<open>modules_available\<close> is the flag \<open>MODULES_AVAILABLE\<close>.
\<close>

definition chat_interface ::
    "bool \<Rightarrow> engine \<Rightarrow> string \<Rightarrow> (string \<times> string) list \<Rightarrow>
     (string \<times> (string \<times> string) list) \<times> string list" where
  "chat_interface modules_available ai message chat_history =
     (if list_all isspace message then (([], chat_history), [])
      else if \<not> modules_available then
        (([], chat_history @
            [(message, ''Demo Response to: '' @ message @ [CHR 0x0A, CHR 0x0A] @
               ''For full functionality, please ensure all modules are installed.'')]), [])
      else
        (case check_safety message of (ok, safety_msg) \<Rightarrow>
           if \<not> ok then (([], chat_history), [])
           else
             (case ai message of
                Inr response \<Rightarrow> (([], chat_history @ [(message, response)]), [message])
              | Inl e \<Rightarrow>
                  (([], chat_history @ [(message, cross_mark @ '' Error: '' @ e)]),
                   [message]))))"

section \<open>Evaluating the character classes\<close>

text \<open>
  The classes on the characters that the concrete inputs below use, as rewrite rules.
\<close>

lemma char_lower_ascii:
  "char_lower CHR ''a'' = CHR ''a''" "char_lower CHR ''b'' = CHR ''b''" "char_lower CHR ''c'' = CHR ''c''"
  "char_lower CHR ''d'' = CHR ''d''" "char_lower CHR ''e'' = CHR ''e''" "char_lower CHR ''f'' = CHR ''f''"
  "char_lower CHR ''g'' = CHR ''g''" "char_lower CHR ''h'' = CHR ''h''" "char_lower CHR ''i'' = CHR ''i''"
  "char_lower CHR ''j'' = CHR ''j''" "char_lower CHR ''k'' = CHR ''k''" "char_lower CHR ''l'' = CHR ''l''"
  "char_lower CHR ''m'' = CHR ''m''" "char_lower CHR ''n'' = CHR ''n''" "char_lower CHR ''o'' = CHR ''o''"
  "char_lower CHR ''p'' = CHR ''p''" "char_lower CHR ''q'' = CHR ''q''" "char_lower CHR ''r'' = CHR ''r''"
  "char_lower CHR ''s'' = CHR ''s''" "char_lower CHR ''t'' = CHR ''t''" "char_lower CHR ''u'' = CHR ''u''"
  "char_lower CHR ''v'' = CHR ''v''" "char_lower CHR ''w'' = CHR ''w''" "char_lower CHR ''x'' = CHR ''x''"
  "char_lower CHR ''y'' = CHR ''y''" "char_lower CHR ''z'' = CHR ''z''" "char_lower CHR '' '' = CHR '' ''"
  "char_lower CHR ''_'' = CHR ''_''" "char_lower CHR ''/'' = CHR ''/''"
  by (simp_all add: char_lower_def code_def)

lemma char_lower_upper:
  "char_lower CHR ''A'' = CHR ''a''" "char_lower CHR ''B'' = CHR ''b''" "char_lower CHR ''C'' = CHR ''c''"
  "char_lower CHR ''D'' = CHR ''d''" "char_lower CHR ''E'' = CHR ''e''" "char_lower CHR ''F'' = CHR ''f''"
  "char_lower CHR ''G'' = CHR ''g''" "char_lower CHR ''H'' = CHR ''h''" "char_lower CHR ''I'' = CHR ''i''"
  "char_lower CHR ''J'' = CHR ''j''" "char_lower CHR ''K'' = CHR ''k''" "char_lower CHR ''L'' = CHR ''l''"
  "char_lower CHR ''M'' = CHR ''m''" "char_lower CHR ''N'' = CHR ''n''" "char_lower CHR ''O'' = CHR ''o''"
  "char_lower CHR ''P'' = CHR ''p''" "char_lower CHR ''Q'' = CHR ''q''" "char_lower CHR ''R'' = CHR ''r''"
  "char_lower CHR ''S'' = CHR ''s''" "char_lower CHR ''T'' = CHR ''t''" "char_lower CHR ''U'' = CHR ''u''"
  "char_lower CHR ''V'' = CHR ''v''" "char_lower CHR ''W'' = CHR ''w''" "char_lower CHR ''X'' = CHR ''x''"
  "char_lower CHR ''Y'' = CHR ''y''" "char_lower CHR ''Z'' = CHR ''z''"
  by code_simp+

lemma isword_ascii:
  "isword CHR ''a''" "isword CHR ''b''" "isword CHR ''c''" "isword CHR ''d''"
  "isword CHR ''e''" "isword CHR ''f''" "isword CHR ''g''" "isword CHR ''h''"
  "isword CHR ''i''" "isword CHR ''j''" "isword CHR ''k''" "isword CHR ''l''"
  "isword CHR ''m''" "isword CHR ''n''" "isword CHR ''o''" "isword CHR ''p''"
  "isword CHR ''q''" "isword CHR ''r''" "isword CHR ''s''" "isword CHR ''t''"
  "isword CHR ''u''" "isword CHR ''v''" "isword CHR ''w''" "isword CHR ''x''"
  "isword CHR ''y''" "isword CHR ''z''" "isword CHR ''A''" "isword CHR ''B''"
  "isword CHR ''C''" "isword CHR ''D''" "isword CHR ''E''" "isword CHR ''F''"
  "isword CHR ''G''" "isword CHR ''H''" "isword CHR ''I''" "isword CHR ''J''"
  "isword CHR ''K''" "isword CHR ''L''" "isword CHR ''M''" "isword CHR ''N''"
  "isword CHR ''O''" "isword CHR ''P''" "isword CHR ''Q''" "isword CHR ''R''"
  "isword CHR ''S''" "isword CHR ''T''" "isword CHR ''U''" "isword CHR ''V''"
  "isword CHR ''W''" "isword CHR ''X''" "isword CHR ''Y''" "isword CHR ''Z''"
  "isword CHR ''_''" "\<not> isword CHR '' ''" "\<not> isword CHR ''/''"
  by (simp_all add: isword_def code_def)

lemma isspace_ascii:
  "\<not> isspace CHR ''a''" "\<not> isspace CHR ''b''" "\<not> isspace CHR ''c''" "\<not> isspace CHR ''d''"
  "\<not> isspace CHR ''e''" "\<not> isspace CHR ''f''" "\<not> isspace CHR ''g''" "\<not> isspace CHR ''h''"
  "\<not> isspace CHR ''i''" "\<not> isspace CHR ''j''" "\<not> isspace CHR ''k''" "\<not> isspace CHR ''l''"
  "\<not> isspace CHR ''m''" "\<not> isspace CHR ''n''" "\<not> isspace CHR ''o''" "\<not> isspace CHR ''p''"
  "\<not> isspace CHR ''q''" "\<not> isspace CHR ''r''" "\<not> isspace CHR ''s''" "\<not> isspace CHR ''t''"
  "\<not> isspace CHR ''u''" "\<not> isspace CHR ''v''" "\<not> isspace CHR ''w''" "\<not> isspace CHR ''x''"
  "\<not> isspace CHR ''y''" "\<not> isspace CHR ''z''" "\<not> isspace CHR ''_''" "\<not> isspace CHR ''/''"
  "isspace CHR '' ''"
  by (simp_all add: isspace_def code_def)

lemmas eval_search =
  search_def word_def char_lower_ascii isword_ascii isspace_ascii
section \<open>The rule loop in general\<close>

lemma has_defensive_context_iff:
  "has_defensive_context dps t \<longleftrightarrow> (\<exists>dp\<in>set dps. search dp t)"
  by (induction dps) auto

lemma scan_mitigated:
  "has_defensive_context dps t \<Longrightarrow> scan rules dps t = (safe, rules)"
  by (induction rules) auto

lemma scan_no_match:
  "find (\<lambda>r. search (fst r) t) rules = None \<Longrightarrow> scan rules dps t = (safe, rules)"
  by (induction rules) (auto split: if_splits)

lemma scan_first_match:
  "\<not> has_defensive_context dps t \<Longrightarrow> find (\<lambda>r. search (fst r) t) rules = Some r \<Longrightarrow>
   scan rules dps t = (blocked (snd r), takeWhile (\<lambda>q. \<not> search (fst q) t) rules @ [r])"
  by (induction rules) (auto split: if_splits)

lemma find_exists: "(\<exists>r\<in>set rules. P r) \<Longrightarrow> \<exists>r. find P rules = Some r"
  by (induction rules) auto

lemma find_none: "\<not> (\<exists>r\<in>set rules. P r) \<Longrightarrow> find P rules = None"
  by (induction rules) auto

lemma blocked_not_safe: "\<not> is_safe (blocked d)" "is_safe safe"
  by (simp_all add: blocked_def safe_def)

section \<open>Claims about the classifier\<close>

text \<open>
  C1. If at least one rule pattern matches the lower-cased text and no defensive pattern
  matches it, \<open>check_input\<close> blocks with the description of the earliest matching rule
  in declaration order (the rule that \<open>find\<close> returns), and the loop has searched for
  the rules up to that one and for none after it.
\<close>

theorem C1_first_unmitigated_match_blocks:
  assumes "\<exists>r\<in>set HARMFUL_PATTERNS. search (fst r) (lower text)"
    and "\<not> has_defensive_context DEFENSIVE_CONTEXT (lower text)"
  shows "\<exists>r. find (\<lambda>r. search (fst r) (lower text)) HARMFUL_PATTERNS = Some r \<and>
             check_input text =
               \<lparr>is_safe = False, reason = ''Request appears to involve '' @ snd r,
                suggestion = get_safe_alternative (snd r)\<rparr> \<and>
             rules_searched text =
               takeWhile (\<lambda>q. \<not> search (fst q) (lower text)) HARMFUL_PATTERNS @ [r]"
proof -
  have "\<exists>r. find (\<lambda>r. search (fst r) (lower text)) HARMFUL_PATTERNS = Some r"
    by (rule find_exists [OF assms(1)])
  then obtain r where r: "find (\<lambda>r. search (fst r) (lower text)) HARMFUL_PATTERNS = Some r" ..
  have s: "scan HARMFUL_PATTERNS DEFENSIVE_CONTEXT (lower text) =
      (blocked (snd r), takeWhile (\<lambda>q. \<not> search (fst q) (lower text)) HARMFUL_PATTERNS @ [r])"
    by (rule scan_first_match [OF assms(2) r])
  have c: "check_input text =
      \<lparr>is_safe = False, reason = ''Request appears to involve '' @ snd r,
       suggestion = get_safe_alternative (snd r)\<rparr>"
    unfolding check_input_def s fst_conv blocked_def ..
  have e: "rules_searched text =
      takeWhile (\<lambda>q. \<not> search (fst q) (lower text)) HARMFUL_PATTERNS @ [r]"
    unfolding rules_searched_def s snd_conv ..
  show ?thesis
    by (rule exI [of _ r]) (intro conjI r c e)
qed

lemma two_rules_text_rule1:
  "search (fst (hd HARMFUL_PATTERNS)) ''write an exploit for a reverse shell''"
  by (simp add: HARMFUL_PATTERNS_def eval_search)

lemma two_rules_text_rule2:
  "search (fst (HARMFUL_PATTERNS ! 1)) ''write an exploit for a reverse shell''"
  by (simp add: HARMFUL_PATTERNS_def eval_search)

lemma two_rules_text_undefended:
  "\<not> has_defensive_context DEFENSIVE_CONTEXT ''write an exploit for a reverse shell''"
  by (simp add: DEFENSIVE_CONTEXT_def eval_search)

lemma two_rules_text_lower:
  "lower ''Write an exploit for a reverse shell'' = ''write an exploit for a reverse shell''"
  by (simp add: lower_def char_lower_ascii char_lower_upper)

theorem C1_witness:
  "(\<exists>r\<in>set HARMFUL_PATTERNS. search (fst r) (lower ''Write an exploit for a reverse shell'')) \<and>
   \<not> has_defensive_context DEFENSIVE_CONTEXT (lower ''Write an exploit for a reverse shell'') \<and>
   search (fst (HARMFUL_PATTERNS ! 1)) (lower ''Write an exploit for a reverse shell'') \<and>
   check_input ''Write an exploit for a reverse shell'' =
     \<lparr>is_safe = False, reason = ''Request appears to involve exploit/payload creation'',
      suggestion = get_safe_alternative ''exploit/payload creation''\<rparr> \<and>
   rules_searched ''Write an exploit for a reverse shell'' = [hd HARMFUL_PATTERNS]"
proof -
  let ?t = "''Write an exploit for a reverse shell''"
  have m: "\<exists>r\<in>set HARMFUL_PATTERNS. search (fst r) (lower ?t)"
    unfolding two_rules_text_lower using two_rules_text_rule1 by (simp add: HARMFUL_PATTERNS_def)
  have u: "\<not> has_defensive_context DEFENSIVE_CONTEXT (lower ?t)"
    unfolding two_rules_text_lower by (rule two_rules_text_undefended)
  have f: "find (\<lambda>r. search (fst r) (lower ?t)) HARMFUL_PATTERNS = Some (hd HARMFUL_PATTERNS)"
    unfolding two_rules_text_lower using two_rules_text_rule1 by (simp add: HARMFUL_PATTERNS_def)
  have tw: "takeWhile (\<lambda>q. \<not> search (fst q) (lower ?t)) HARMFUL_PATTERNS = []"
    unfolding two_rules_text_lower using two_rules_text_rule1 by (simp add: HARMFUL_PATTERNS_def)
  have d: "snd (hd HARMFUL_PATTERNS) = ''exploit/payload creation''"
    by (simp add: HARMFUL_PATTERNS_def)
  from C1_first_unmitigated_match_blocks [OF m u] obtain r where
    r: "find (\<lambda>r. search (fst r) (lower ?t)) HARMFUL_PATTERNS = Some r"
    and c: "check_input ?t =
       \<lparr>is_safe = False, reason = ''Request appears to involve '' @ snd r,
        suggestion = get_safe_alternative (snd r)\<rparr>"
    and s: "rules_searched ?t =
       takeWhile (\<lambda>q. \<not> search (fst q) (lower ?t)) HARMFUL_PATTERNS @ [r]"
    by blast
  from r f have "r = hd HARMFUL_PATTERNS" by simp
  with c s tw d have "check_input ?t =
       \<lparr>is_safe = False, reason = ''Request appears to involve exploit/payload creation'',
        suggestion = get_safe_alternative ''exploit/payload creation''\<rparr>"
    and "rules_searched ?t = [hd HARMFUL_PATTERNS]"
    by simp_all
  moreover have "search (fst (HARMFUL_PATTERNS ! 1)) (lower ?t)"
    unfolding two_rules_text_lower by (rule two_rules_text_rule2)
  ultimately show ?thesis using m u by blast
qed

text \<open>
  C2 as stated fails: the defensive patterns are searched for in the whole text, not per
  rule, so once one of them matches no rule at all can block. There is no input on
  which a rule is mitigated and the classifier still blocks.
\<close>

theorem C2_counterexample:
  "\<not> (\<exists>text r. r \<in> set HARMFUL_PATTERNS \<and> search (fst r) (lower text) \<and>
        has_defensive_context DEFENSIVE_CONTEXT (lower text) \<and>
        \<not> is_safe (check_input text))"
proof
  assume "\<exists>text r. r \<in> set HARMFUL_PATTERNS \<and> search (fst r) (lower text) \<and>
        has_defensive_context DEFENSIVE_CONTEXT (lower text) \<and>
        \<not> is_safe (check_input text)"
  then obtain t where d: "has_defensive_context DEFENSIVE_CONTEXT (lower t)"
    and b: "\<not> is_safe (check_input t)"
    by blast
  have "check_input t = safe"
    unfolding check_input_def scan_mitigated [OF d] fst_conv ..
  with b show False
    by (simp add: safe_def)
qed

text \<open>
  C2, amended. When a defensive pattern matches the lower-cased text, no rule causes a
  block, whether its pattern matches or not: the loop searches for every rule, in
  order, and the result is ALLOW.
\<close>

theorem C2_mitigated_scan_allows:
  assumes "has_defensive_context DEFENSIVE_CONTEXT (lower text)"
  shows "check_input text = safe \<and> rules_searched text = HARMFUL_PATTERNS"
  unfolding check_input_def rules_searched_def scan_mitigated [OF assms] fst_conv snd_conv
  by (rule conjI) (rule refl)+

lemma detect_text_lower:
  "lower ''How do I detect a reverse shell in my lab environment'' =
   ''how do i detect a reverse shell in my lab environment''"
  by (simp add: lower_def char_lower_ascii char_lower_upper)

lemma detect_text_rule2:
  "search (fst (HARMFUL_PATTERNS ! 1)) ''how do i detect a reverse shell in my lab environment''"
  by (simp add: HARMFUL_PATTERNS_def eval_search)

lemma detect_text_detect:
  "search (word ''detect'') ''how do i detect a reverse shell in my lab environment''"
  by (simp add: eval_search)

lemma detect_text_defended:
  "has_defensive_context DEFENSIVE_CONTEXT ''how do i detect a reverse shell in my lab environment''"
  by (simp add: DEFENSIVE_CONTEXT_def detect_text_detect)

theorem C2_witness:
  "search (fst (HARMFUL_PATTERNS ! 1))
     (lower ''How do I detect a reverse shell in my lab environment'') \<and>
   has_defensive_context DEFENSIVE_CONTEXT
     (lower ''How do I detect a reverse shell in my lab environment'') \<and>
   check_input ''How do I detect a reverse shell in my lab environment'' = safe \<and>
   rules_searched ''How do I detect a reverse shell in my lab environment'' = HARMFUL_PATTERNS"
proof -
  have d: "has_defensive_context DEFENSIVE_CONTEXT
     (lower ''How do I detect a reverse shell in my lab environment'')"
    unfolding detect_text_lower by (rule detect_text_defended)
  have m: "search (fst (HARMFUL_PATTERNS ! 1))
     (lower ''How do I detect a reverse shell in my lab environment'')"
    unfolding detect_text_lower by (rule detect_text_rule2)
  note r = C2_mitigated_scan_allows [OF d]
  show ?thesis
    by (intro conjI m d r [THEN conjunct1] r [THEN conjunct2])
qed

text \<open>
  C3. \<open>check_input\<close> allows a text exactly when no harmful pattern matches the
  lower-cased text or some defensive pattern matches it; whenever a defensive pattern
  matches, the result is ALLOW; and the loop computes the global formula.
\<close>

theorem C3_loop_is_global_formula:
  "(is_safe (check_input text) \<longleftrightarrow>
      (\<not> (\<exists>r\<in>set HARMFUL_PATTERNS. search (fst r) (lower text)) \<or>
       (\<exists>dp\<in>set DEFENSIVE_CONTEXT. search dp (lower text)))) \<and>
   ((\<exists>dp\<in>set DEFENSIVE_CONTEXT. search dp (lower text)) \<longrightarrow> check_input text = safe) \<and>
   check_input text = check_input_global text"
proof (cases "has_defensive_context DEFENSIVE_CONTEXT (lower text)")
  case True
  then have c: "check_input text = safe"
    unfolding check_input_def scan_mitigated [OF True] fst_conv by simp
  from True have e: "\<exists>dp\<in>set DEFENSIVE_CONTEXT. search dp (lower text)"
    unfolding has_defensive_context_iff .
  then have l: "list_ex (\<lambda>dp. search dp (lower text)) DEFENSIVE_CONTEXT"
    unfolding list_ex_iff .
  have g: "check_input_global text = safe"
    unfolding check_input_global_def Let_def using l by (simp split: option.split)
  show ?thesis
    unfolding c g using e by (simp add: safe_def)
next
  case False
  then have e: "\<not> (\<exists>dp\<in>set DEFENSIVE_CONTEXT. search dp (lower text))"
    unfolding has_defensive_context_iff .
  then have l: "\<not> list_ex (\<lambda>dp. search dp (lower text)) DEFENSIVE_CONTEXT"
    unfolding list_ex_iff .
  show ?thesis
  proof (cases "find (\<lambda>r. search (fst r) (lower text)) HARMFUL_PATTERNS")
    case None
    have c: "check_input text = safe"
      unfolding check_input_def scan_no_match [OF None] fst_conv ..
    have g: "check_input_global text = safe"
      unfolding check_input_global_def Let_def None by simp
    from None have n: "\<not> (\<exists>r\<in>set HARMFUL_PATTERNS. search (fst r) (lower text))"
      unfolding find_None_iff by blast
    show ?thesis
      unfolding c g using n e by (simp add: safe_def)
  next
    case (Some r)
    have c: "check_input text = blocked (snd r)"
      unfolding check_input_def scan_first_match [OF False Some] fst_conv ..
    have g: "check_input_global text = blocked (snd r)"
      unfolding check_input_global_def Let_def Some using l by simp
    from Some have m: "\<exists>r\<in>set HARMFUL_PATTERNS. search (fst r) (lower text)"
      unfolding find_Some_iff by (metis nth_mem)
    show ?thesis
      unfolding c g using m e by (simp add: blocked_def)
  qed
qed

theorem C3_witness:
  "(\<exists>r\<in>set HARMFUL_PATTERNS. search (fst r)
      (lower ''How do I detect a reverse shell in my lab environment'')) \<and>
   (\<exists>dp\<in>set DEFENSIVE_CONTEXT. search dp
      (lower ''How do I detect a reverse shell in my lab environment'')) \<and>
   is_safe (check_input ''How do I detect a reverse shell in my lab environment'') \<and>
   check_input ''How do I detect a reverse shell in my lab environment'' = safe \<and>
   check_input_global ''How do I detect a reverse shell in my lab environment'' = safe"
proof -
  let ?t = "''How do I detect a reverse shell in my lab environment''"
  have d: "\<exists>dp\<in>set DEFENSIVE_CONTEXT. search dp (lower ?t)"
    unfolding detect_text_lower has_defensive_context_iff [symmetric]
    by (rule detect_text_defended)
  have i: "HARMFUL_PATTERNS ! 1 \<in> set HARMFUL_PATTERNS"
    by (simp add: HARMFUL_PATTERNS_def)
  have m: "\<exists>r\<in>set HARMFUL_PATTERNS. search (fst r) (lower ?t)"
    unfolding detect_text_lower
    by (rule bexI [where x = "HARMFUL_PATTERNS ! 1" and
          P = "\<lambda>r. search (fst r) ''how do i detect a reverse shell in my lab environment''",
          OF detect_text_rule2 i])
  note r = C3_loop_is_global_formula [of ?t]
  have c: "check_input ?t = safe"
    by (rule r [THEN conjunct2, THEN conjunct1, THEN mp, OF d])
  have g: "check_input_global ?t = safe"
    unfolding r [THEN conjunct2, THEN conjunct2, symmetric] by (rule c)
  have s: "is_safe (check_input ?t)"
    unfolding c by (simp add: safe_def)
  show ?thesis
    by (intro conjI m d s c g)
qed

section \<open>Claims about the suggestion lookup\<close>

lemma str_in_iff_sublist: "str_in k t \<longleftrightarrow> sublist k t"
  by (induction t) (simp_all add: sublist_Cons_right)

lemma first_alternative_find:
  "first_alternative alts topic =
     (case find (\<lambda>(k, v). str_in k topic) alts of None \<Rightarrow> fallback | Some (k, v) \<Rightarrow> v)"
  by (induction alts) auto

lemma first_alternative_range:
  "first_alternative alts topic \<in> insert fallback (snd ` set alts)"
proof (induction alts)
  case Nil
  show ?case by simp
next
  case (Cons a alts)
  obtain key sugg where a: "a = (key, sugg)" by (cases a)
  from Cons show ?case
    unfolding a by (cases "str_in key topic") force+
qed

lemma alternatives_nonempty: "[] \<notin> snd ` set alternatives"
  by (simp add: alternatives_def)

lemma fallback_nonempty: "fallback \<noteq> []"
  by (simp add: fallback_def)

text \<open>
  C7. For every topic, the lookup returns the value of the first table entry, in
  insertion order, whose key is a substring of the topic; when no key is a substring of
  the topic it returns the fallback; the result is never empty. The lookup is a total
  function, so it never fails.
\<close>

theorem C7_suggestion_lookup_total:
  "(\<forall>key sugg. find (\<lambda>(k, v). sublist k topic) alternatives = Some (key, sugg) \<longrightarrow>
      sublist key topic \<and> get_safe_alternative topic = sugg) \<and>
   ((\<forall>(k, v)\<in>set alternatives. \<not> sublist k topic) \<longrightarrow>
      get_safe_alternative topic = fallback) \<and>
   get_safe_alternative topic \<noteq> [] \<and> fallback \<noteq> []"
proof (intro conjI allI impI)
  fix key sugg
  assume f: "find (\<lambda>(k, v). sublist k topic) alternatives = Some (key, sugg)"
  then show "sublist key topic"
    by (auto simp: find_Some_iff)
  from f show "get_safe_alternative topic = sugg"
    by (simp add: get_safe_alternative_def first_alternative_find str_in_iff_sublist)
next
  assume "\<forall>(k, v)\<in>set alternatives. \<not> sublist k topic"
  then have "find (\<lambda>(k, v). sublist k topic) alternatives = None"
    by (auto simp: find_None_iff)
  then show "get_safe_alternative topic = fallback"
    by (simp add: get_safe_alternative_def first_alternative_find str_in_iff_sublist)
next
  have "get_safe_alternative topic \<in> insert fallback (snd ` set alternatives)"
    unfolding get_safe_alternative_def by (rule first_alternative_range)
  then show "get_safe_alternative topic \<noteq> []"
    using alternatives_nonempty fallback_nonempty by (metis insertE)
next
  show "fallback \<noteq> []" by (rule fallback_nonempty)
qed

lemma shell_topic_find:
  "find (\<lambda>(k, v). sublist k ''reverse/bind shell creation'') alternatives =
     Some (''reverse/bind shell creation'',
       ''I can explain what reverse shells are, how to detect them in network traffic, '' @
       ''and how to harden systems against them.'')"
  unfolding str_in_iff_sublist [symmetric] by (simp add: alternatives_def)

lemma synthetic_topic_no_key:
  "\<forall>(k, v)\<in>set alternatives. \<not> sublist k ''synthetic topic''"
  unfolding str_in_iff_sublist [symmetric] by (simp add: alternatives_def)

theorem C7_witness:
  "get_safe_alternative ''reverse/bind shell creation'' =
     ''I can explain what reverse shells are, how to detect them in network traffic, '' @
     ''and how to harden systems against them.'' \<and>
   get_safe_alternative ''synthetic topic'' = fallback \<and>
   get_safe_alternative ''synthetic topic'' \<noteq> []"
proof -
  note a = C7_suggestion_lookup_total [of "''reverse/bind shell creation''"]
  note b = C7_suggestion_lookup_total [of "''synthetic topic''"]
  have 1: "get_safe_alternative ''reverse/bind shell creation'' =
     ''I can explain what reverse shells are, how to detect them in network traffic, '' @
     ''and how to harden systems against them.''"
    by (rule a [THEN conjunct1, THEN spec, THEN spec, THEN mp, OF shell_topic_find,
          THEN conjunct2])
  have 2: "get_safe_alternative ''synthetic topic'' = fallback"
    by (rule b [THEN conjunct2, THEN conjunct1, THEN mp, OF synthetic_topic_no_key])
  have 3: "get_safe_alternative ''synthetic topic'' \<noteq> []"
    by (rule b [THEN conjunct2, THEN conjunct2, THEN conjunct1])
  show ?thesis by (intro conjI 1 2 3)
qed

section \<open>Case insensitivity\<close>

lemma char_lower_idem: "char_lower (char_lower c) = char_lower c"
  by (auto simp: char_lower_def code_def)

lemma lower_idem: "lower (lower s) = lower s"
  by (simp add: lower_def char_lower_idem)

lemma scan_range:
  "fst (scan rules dps t) \<in> set (safe # map (\<lambda>r. blocked (snd r)) rules)"
proof (cases "has_defensive_context dps t")
  case True
  then show ?thesis by (simp add: scan_mitigated)
next
  case False
  show ?thesis
  proof (cases "find (\<lambda>r. search (fst r) t) rules")
    case None
    then show ?thesis by (simp add: scan_no_match)
  next
    case (Some r)
    then have "r \<in> set rules" by (auto simp: find_Some_iff)
    then show ?thesis by (simp add: scan_first_match [OF False Some])
  qed
qed

lemma bypass_text_lower: "lower ''BYPASS AUTHENTICATION'' = ''bypass authentication''"
  by (simp add: lower_def char_lower_ascii char_lower_upper)

lemma bypass_text_lower': "lower ''bypass authentication'' = ''bypass authentication''"
  by (simp add: lower_def char_lower_ascii)

text \<open>
  C10. \<open>check_input\<close> gives the same result on a text and on the lower-cased text; in
  particular on \<open>BYPASS AUTHENTICATION\<close> and \<open>bypass authentication\<close>. The result is one
  of finitely many values made from the rule table alone, so the input text is never
  part of it.
\<close>

theorem C10_case_insensitive:
  "check_input (lower text) = check_input text \<and>
   check_input ''BYPASS AUTHENTICATION'' = check_input ''bypass authentication'' \<and>
   check_input text \<in> set (safe # map (\<lambda>r. blocked (snd r)) HARMFUL_PATTERNS)"
proof (intro conjI)
  show "check_input (lower text) = check_input text"
    unfolding check_input_def lower_idem ..
  show "check_input ''BYPASS AUTHENTICATION'' = check_input ''bypass authentication''"
    unfolding check_input_def bypass_text_lower bypass_text_lower' ..
  show "check_input text \<in> set (safe # map (\<lambda>r. blocked (snd r)) HARMFUL_PATTERNS)"
    unfolding check_input_def by (rule scan_range)
qed

section \<open>The word \<open>permission\<close>\<close>

lemma search_from_start: "ends r (prev, s) \<noteq> [] \<Longrightarrow> search_from r prev s"
  by (cases s) simp_all

lemma search_from_append:
  "ends r (if pre = [] then prev else Some (last pre), s) \<noteq> [] \<Longrightarrow>
   search_from r prev (pre @ s)"
proof (induction pre arbitrary: prev)
  case Nil
  then show ?case by (simp add: search_from_start)
next
  case (Cons c pre)
  from Cons.prems have "ends r (if pre = [] then Some c else Some (last pre), s) \<noteq> []"
    by (simp split: if_splits)
  then have "search_from r (Some c) (pre @ s)"
    by (rule Cons.IH)
  then show ?case by simp
qed

lemma lit_permission:
  "lit ''permission'' (prev, ''permission'' @ post) = [(Some CHR ''n'', post)]"
  by (simp add: char_lower_ascii)

lemma ends_word_permission:
  assumes "case prev of None \<Rightarrow> True | Some c \<Rightarrow> \<not> isword c"
    and "post = [] \<or> \<not> isword (hd post)"
  shows "ends (word ''permission'') (prev, ''permission'' @ post) \<noteq> []"
proof -
  have b1: "at_boundary (prev, ''permission'' @ post)"
    using assms(1) by (simp add: isword_ascii split: option.splits)
  have b2: "at_boundary (Some CHR ''n'', post)"
    using assms(2) by (cases post) (simp_all add: isword_ascii)
  have "ends (word ''permission'') (prev, ''permission'' @ post) = [(Some CHR ''n'', post)]"
    unfolding word_def ends.simps using b1 b2 by (simp add: lit_permission)
  then show ?thesis by simp
qed

lemma permission_in_context: "word ''permission'' \<in> set DEFENSIVE_CONTEXT"
  by (simp add: DEFENSIVE_CONTEXT_def)

text \<open>
  C5 as stated fails in its second part. The rule
  \<open>\b(without|no).{0,15}(permission|authorization|consent)\b\<close> has no word boundary
  before its last group, while the defensive pattern \<open>\bpermission\b\<close> has one. A
  text in which \<open>permission\<close> directly follows a word character, such as the
  underscore of \<open>app_permission\<close>, matches the rule through the alternative
  \<open>permission\<close> and matches no defensive pattern, so it is blocked as unauthorized
  access.
\<close>

theorem C5_counterexample:
  "check_input ''without app_permission'' = blocked ''unauthorized access'' \<and>
   \<not> is_safe (check_input ''without app_permission'') \<and>
   \<not> str_in ''authorization'' ''without app_permission'' \<and>
   \<not> str_in ''consent'' ''without app_permission''"
proof -
  have c: "check_input ''without app_permission'' = blocked ''unauthorized access''"
    by (simp add: check_input_def HARMFUL_PATTERNS_def DEFENSIVE_CONTEXT_def lower_def
        eval_search)
  have s: "\<not> is_safe (check_input ''without app_permission'')"
    unfolding c by (simp add: blocked_def)
  have a: "\<not> str_in ''authorization'' ''without app_permission''"
    by simp
  have n: "\<not> str_in ''consent'' ''without app_permission''"
    by simp
  show ?thesis by (intro conjI c s a n)
qed

text \<open>
  C5, amended. For every input text in whose lower-cased form \<open>permission\<close> occurs as a
  whole word (no word character directly before or after it), \<open>check_input\<close> returns
  ALLOW, whatever rules match. A text can still be blocked as unauthorized access
  through the alternative \<open>permission\<close> when a word character directly precedes it.
\<close>

theorem C5_whole_word_permission_allows:
  assumes "lower text = pre @ ''permission'' @ post"
    and "pre = [] \<or> \<not> isword (last pre)"
    and "post = [] \<or> \<not> isword (hd post)"
  shows "check_input text = safe"
proof -
  have "case (if pre = [] then None else Some (last pre)) of
          None \<Rightarrow> True | Some c \<Rightarrow> \<not> isword c"
    using assms(2) by auto
  then have "ends (word ''permission'')
      (if pre = [] then None else Some (last pre), ''permission'' @ post) \<noteq> []"
    using assms(3) by (rule ends_word_permission)
  then have "search_from (word ''permission'') None (pre @ ''permission'' @ post)"
    by (rule search_from_append)
  then have "search (word ''permission'') (lower text)"
    unfolding search_def assms(1) .
  with permission_in_context have "\<exists>dp\<in>set DEFENSIVE_CONTEXT. search dp (lower text)"
    by (rule bexI [rotated])
  then have d: "has_defensive_context DEFENSIVE_CONTEXT (lower text)"
    unfolding has_defensive_context_iff .
  show ?thesis
    unfolding check_input_def scan_mitigated [OF d] fst_conv ..
qed

lemma permission_text_lower:
  "lower ''Access files without permission'' = ''access files without '' @ ''permission'' @ []"
  by (simp add: lower_def char_lower_ascii char_lower_upper)

lemma permission_text_rule14:
  "search (fst (HARMFUL_PATTERNS ! 13)) ''access files without permission''"
  by (simp add: HARMFUL_PATTERNS_def eval_search)

theorem C5_witness:
  "lower ''Access files without permission'' = ''access files without '' @ ''permission'' @ [] \<and>
   search (fst (HARMFUL_PATTERNS ! 13)) (lower ''Access files without permission'') \<and>
   check_input ''Access files without permission'' = safe"
proof -
  have p: "''access files without '' = [] \<or> \<not> isword (last ''access files without '')"
    by (simp add: isword_ascii)
  have q: "([]::string) = [] \<or> \<not> isword (hd [])"
    by simp
  have m: "search (fst (HARMFUL_PATTERNS ! 13)) (lower ''Access files without permission'')"
    unfolding permission_text_lower using permission_text_rule14 by simp
  note c = C5_whole_word_permission_allows [OF permission_text_lower p q]
  show ?thesis by (intro conjI permission_text_lower m c)
qed

section \<open>The refusal message\<close>

lemma sublist_skip: "sublist xs ys \<Longrightarrow> sublist xs (zs @ ys)"
  by (metis append.assoc sublist_def)

lemma sublist_here: "sublist xs (xs @ ss)"
  by (metis append_Nil sublist_appendI)

lemma response_contains_suggestion:
  "sublist (suggestion check) (get_safety_response check)"
  unfolding get_safety_response_def
  by (rule sublist_skip, rule sublist_skip, rule sublist_skip, rule sublist_skip,
      rule sublist_skip, rule sublist_skip, rule sublist_skip, rule sublist_skip,
      rule sublist_skip, rule sublist_here)

lemma shell_text_check:
  "check_input ''write me a reverse shell'' = blocked ''reverse/bind shell creation''"
  by (simp add: check_input_def HARMFUL_PATTERNS_def DEFENSIVE_CONTEXT_def lower_def
      eval_search)

lemma shell_suggestion:
  "get_safe_alternative ''reverse/bind shell creation'' =
     ''I can explain what reverse shells are, how to detect them in network traffic, '' @
     ''and how to harden systems against them.''"
  by (simp add: get_safe_alternative_def alternatives_def)

lemma shell_text_blocked: "check_safety ''write me a reverse shell'' =
    (False, get_safety_response (check_input ''write me a reverse shell''))"
  unfolding check_safety_def Let_def shell_text_check by (simp add: blocked_def)

text \<open>
  C6. \<open>check_input\<close> blocks \<open>write me a reverse shell\<close>; the reason names the topic
  \<open>reverse/bind shell\<close>; the suggestion is the reverse-shell entry of the table; and
  the message that \<open>check_safety\<close> returns to the caller contains that suggestion.
\<close>

theorem C6_reverse_shell_blocked:
  "check_input ''write me a reverse shell'' =
     \<lparr>is_safe = False,
      reason = ''Request appears to involve reverse/bind shell creation'',
      suggestion =
        ''I can explain what reverse shells are, how to detect them in network traffic, '' @
        ''and how to harden systems against them.''\<rparr> \<and>
   sublist ''reverse/bind shell'' (reason (check_input ''write me a reverse shell'')) \<and>
   fst (check_safety ''write me a reverse shell'') = False \<and>
   sublist
     (''I can explain what reverse shells are, how to detect them in network traffic, '' @
      ''and how to harden systems against them.'')
     (snd (check_safety ''write me a reverse shell''))"
proof -
  have c: "check_input ''write me a reverse shell'' =
     \<lparr>is_safe = False,
      reason = ''Request appears to involve reverse/bind shell creation'',
      suggestion =
        ''I can explain what reverse shells are, how to detect them in network traffic, '' @
        ''and how to harden systems against them.''\<rparr>"
    unfolding shell_text_check blocked_def shell_suggestion by simp
  have "sublist ''reverse/bind shell''
      (''Request appears to involve '' @ ''reverse/bind shell'' @ '' creation'')"
    by (rule sublist_appendI)
  then have t: "sublist ''reverse/bind shell'' (reason (check_input ''write me a reverse shell''))"
    unfolding c by simp
  have f: "fst (check_safety ''write me a reverse shell'') = False"
    unfolding shell_text_blocked by simp
  have "sublist (suggestion (check_input ''write me a reverse shell''))
      (snd (check_safety ''write me a reverse shell''))"
    unfolding shell_text_blocked snd_conv by (rule response_contains_suggestion)
  then have m: "sublist
     (''I can explain what reverse shells are, how to detect them in network traffic, '' @
      ''and how to harden systems against them.'')
     (snd (check_safety ''write me a reverse shell''))"
    unfolding c by simp
  show ?thesis by (intro conjI c t f m)
qed

section \<open>The safety check in the front ends\<close>

text \<open>
  On a blocked input the command line, the web endpoint and \<open>chat_with_spider\<close> show or
  return the safety message and do not call the engine; on an allowed input they call
  the engine with the input text itself.
\<close>

lemma front_ends_blocked:
  assumes "\<not> fst (check_safety t)"
  shows "cli_chat ai False t = ([Print (snd (check_safety t))], [])"
    and "web_chat ai t = (JSONResponse_error (snd (check_safety t)) 400, [])"
    and "chat_with_spider ai t h = ((snd (check_safety t), h), [])"
  using assms
  by (auto simp: cli_chat_def web_chat_def chat_with_spider_def split: prod.splits)

lemma front_ends_allowed:
  assumes "fst (check_safety t)"
  shows "snd (cli_chat ai voice t) = [t]"
    and "snd (web_chat ai t) = [t]"
    and "snd (chat_with_spider ai t h) = [t]"
  using assms
  by (auto simp: cli_chat_def web_chat_def chat_with_spider_def Let_def
      split: prod.splits sum.splits)

lemma standalone_engine_calls:
  "\<not> fst (check_safety t) \<Longrightarrow> snd (chat_interface m ai t h) = []"
  "fst (check_safety t) \<Longrightarrow> m \<Longrightarrow> \<not> list_all isspace t \<Longrightarrow>
     snd (chat_interface m ai t h) = [t]"
  by (auto simp: chat_interface_def split: prod.splits sum.splits)

lemma shell_text_not_blank: "\<not> list_all isspace ''write me a reverse shell''"
  by (simp add: isspace_ascii)

text \<open>
  C4 fails in the stand-alone Gradio front end. On the blocked input
  \<open>write me a reverse shell\<close>, \<open>chat_interface\<close> of \<open>app_standalone.py\<close> returns the
  empty text and the unchanged history: the safety message that \<open>check_safety\<close>
  computed is dropped, where \<open>chat_with_spider\<close> of \<open>app.py\<close> returns it. The engine is
  not called in either.
\<close>

theorem C4_standalone_drops_safety_message:
  "fst (check_safety ''write me a reverse shell'') = False \<and>
   snd (check_safety ''write me a reverse shell'') \<noteq> [] \<and>
   chat_interface True ai ''write me a reverse shell'' [] = (([], []), []) \<and>
   chat_with_spider ai ''write me a reverse shell'' [] =
     ((snd (check_safety ''write me a reverse shell''), []), [])"
proof -
  have f: "fst (check_safety ''write me a reverse shell'') = False"
    unfolding shell_text_blocked by simp
  have n: "snd (check_safety ''write me a reverse shell'') \<noteq> []"
    unfolding shell_text_blocked snd_conv get_safety_response_def by simp
  have i: "chat_interface True ai ''write me a reverse shell'' [] = (([], []), [])"
    unfolding chat_interface_def shell_text_blocked
    using shell_text_not_blank by simp
  have s: "chat_with_spider ai ''write me a reverse shell'' [] =
     ((snd (check_safety ''write me a reverse shell''), []), [])"
    using f by (simp add: front_ends_blocked(3))
  show ?thesis by (intro conjI f n i s)
qed

section \<open>Claims about the conversation history\<close>

lemma slice_from_last:
  "0 < k \<Longrightarrow> slice_from xs (- k) = drop (length xs - nat k) xs"
  by (simp add: slice_from_def nat_diff_distrib')

lemma set_slice_from: "set (slice_from xs i) \<subseteq> set xs"
  unfolding slice_from_def by (cases "i < 0") (simp_all add: set_drop_subset)

lemma filter_system_slice:
  "filter is_system (slice_from (filter (\<lambda>m. \<not> is_system m) msgs) i) = []"
  using set_slice_from [of "filter (\<lambda>m. \<not> is_system m) msgs" i]
  by (auto simp: filter_empty_conv)

lemma filter_system_trimmed:
  "filter is_system
     (filter is_system msgs @ slice_from (filter (\<lambda>m. \<not> is_system m) msgs) i) =
   filter is_system msgs"
  unfolding filter_append filter_system_slice by simp

lemma length_filter_split:
  "length (filter is_system msgs) + length (filter (\<lambda>m. \<not> is_system m) msgs) = length msgs"
  by (rule sum_length_filter_compl)

lemma add_message_trim:
  assumes "msgs = messages self @ [\<lparr>role = r, content = c\<rparr>]"
    and "max_history self < int (length msgs)"
  shows "messages (add_message self r c) =
      filter is_system msgs @
      slice_from (filter (\<lambda>m. \<not> is_system m) msgs)
        (- (max_history self - int (length (filter is_system msgs))))"
  using assms by (simp add: add_message_def Let_def)

lemma add_message_keep:
  assumes "msgs = messages self @ [\<lparr>role = r, content = c\<rparr>]"
    and "\<not> max_history self < int (length msgs)"
  shows "messages (add_message self r c) = msgs"
  using assms by (simp add: add_message_def Let_def)

lemma add_message_max_history: "max_history (add_message self r c) = max_history self"
  by (simp add: add_message_def Let_def)

text \<open>
  An appended message at the limit. With as many system messages as \<open>max_history\<close>, the
  slice is \<open>other_msgs[-0:]\<close>, the whole list, and nothing is dropped.
\<close>

lemma add_message_at_limit:
  "messages (add_message \<lparr>messages = [\<lparr>role = ''system'', content = ''s''\<rparr>], max_history = 1\<rparr>
      ''user'' ''a'') =
     [\<lparr>role = ''system'', content = ''s''\<rparr>, \<lparr>role = ''user'', content = ''a''\<rparr>]"
  by (simp add: add_message_def Let_def is_system_def slice_from_def)

text \<open>
  C8 as stated fails: the trimmed list puts the system messages first, so a system
  message that was added after a retained non-system message moves in front of it.
  With limit 3 and the history user \<open>a\<close>, user \<open>b\<close>, system \<open>s\<close>, appending user \<open>c\<close>
  gives \<open>s\<close>, \<open>b\<close>, \<open>c\<close>, which is not a subsequence of the history \<open>a\<close>, \<open>b\<close>, \<open>s\<close>,
  \<open>c\<close>.
\<close>

theorem C8_counterexample:
  "messages (add_message
      \<lparr>messages = [\<lparr>role = ''user'', content = ''a''\<rparr>, \<lparr>role = ''user'', content = ''b''\<rparr>,
                   \<lparr>role = ''system'', content = ''s''\<rparr>],
       max_history = 3\<rparr> ''user'' ''c'') =
     [\<lparr>role = ''system'', content = ''s''\<rparr>, \<lparr>role = ''user'', content = ''b''\<rparr>,
      \<lparr>role = ''user'', content = ''c''\<rparr>] \<and>
   \<not> subseq
      (messages (add_message
        \<lparr>messages = [\<lparr>role = ''user'', content = ''a''\<rparr>, \<lparr>role = ''user'', content = ''b''\<rparr>,
                     \<lparr>role = ''system'', content = ''s''\<rparr>],
         max_history = 3\<rparr> ''user'' ''c''))
      [\<lparr>role = ''user'', content = ''a''\<rparr>, \<lparr>role = ''user'', content = ''b''\<rparr>,
       \<lparr>role = ''system'', content = ''s''\<rparr>, \<lparr>role = ''user'', content = ''c''\<rparr>]"
proof -
  have e: "messages (add_message
      \<lparr>messages = [\<lparr>role = ''user'', content = ''a''\<rparr>, \<lparr>role = ''user'', content = ''b''\<rparr>,
                   \<lparr>role = ''system'', content = ''s''\<rparr>],
       max_history = 3\<rparr> ''user'' ''c'') =
     [\<lparr>role = ''system'', content = ''s''\<rparr>, \<lparr>role = ''user'', content = ''b''\<rparr>,
      \<lparr>role = ''user'', content = ''c''\<rparr>]"
    by (simp add: add_message_def Let_def is_system_def slice_from_def)
  have n: "\<not> subseq
      [\<lparr>role = ''system'', content = ''s''\<rparr>, \<lparr>role = ''user'', content = ''b''\<rparr>,
       \<lparr>role = ''user'', content = ''c''\<rparr>]
      [\<lparr>role = ''user'', content = ''a''\<rparr>, \<lparr>role = ''user'', content = ''b''\<rparr>,
       \<lparr>role = ''system'', content = ''s''\<rparr>, \<lparr>role = ''user'', content = ''c''\<rparr>]"
    by (simp add: subseq_Cons2_iff)
  show ?thesis unfolding e by (intro conjI refl n)
qed

text \<open>
  C8, amended. When the list with the appended message is longer than \<open>max_history\<close> and
  holds fewer system messages than \<open>max_history\<close>, the result is every system message,
  in their order, followed by exactly the most recent \<open>max_history\<close> minus that number
  of non-system messages, in their order.
\<close>

theorem C8_trim_keeps_system_and_recent:
  assumes "msgs = messages self @ [\<lparr>role = r, content = c\<rparr>]"
    and "max_history self < int (length msgs)"
    and "int (length (filter is_system msgs)) < max_history self"
    and "k = nat (max_history self - int (length (filter is_system msgs)))"
    and "other = filter (\<lambda>m. \<not> is_system m) msgs"
  shows "messages (add_message self r c) =
           filter is_system msgs @ drop (length other - k) other \<and>
         length (drop (length other - k) other) = k"
proof -
  have p: "0 < max_history self - int (length (filter is_system msgs))"
    using assms(3) by simp
  have "messages (add_message self r c) =
      filter is_system msgs @
      slice_from other (- (max_history self - int (length (filter is_system msgs))))"
    unfolding assms(5) by (rule add_message_trim [OF assms(1) assms(2)])
  then have 1: "messages (add_message self r c) =
      filter is_system msgs @ drop (length other - k) other"
    unfolding slice_from_last [OF p] assms(4) .
  have "int (length (filter is_system msgs)) + int (length other) = int (length msgs)"
    unfolding assms(5) using length_filter_split [of msgs] by simp
  with assms(2) assms(4) p have "k \<le> length other"
    by simp
  then have 2: "length (drop (length other - k) other) = k"
    by simp
  show ?thesis by (intro conjI 1 2)
qed

theorem C8_witness:
  "messages (add_message
      \<lparr>messages = [\<lparr>role = ''system'', content = ''s''\<rparr>, \<lparr>role = ''user'', content = ''a''\<rparr>,
                   \<lparr>role = ''assistant'', content = ''b''\<rparr>],
       max_history = 3\<rparr> ''user'' ''c'') =
     [\<lparr>role = ''system'', content = ''s''\<rparr>, \<lparr>role = ''assistant'', content = ''b''\<rparr>,
      \<lparr>role = ''user'', content = ''c''\<rparr>]"
proof -
  let ?self = "\<lparr>messages = [\<lparr>role = ''system'', content = ''s''\<rparr>,
      \<lparr>role = ''user'', content = ''a''\<rparr>, \<lparr>role = ''assistant'', content = ''b''\<rparr>],
      max_history = 3\<rparr>"
  let ?msgs = "[\<lparr>role = ''system'', content = ''s''\<rparr>, \<lparr>role = ''user'', content = ''a''\<rparr>,
      \<lparr>role = ''assistant'', content = ''b''\<rparr>, \<lparr>role = ''user'', content = ''c''\<rparr>]"
  have 1: "?msgs = messages ?self @ [\<lparr>role = ''user'', content = ''c''\<rparr>]"
    by simp
  have 2: "max_history ?self < int (length ?msgs)"
    by simp
  have 3: "int (length (filter is_system ?msgs)) < max_history ?self"
    by (simp add: is_system_def)
  have 4: "(2::nat) = nat (max_history ?self - int (length (filter is_system ?msgs)))"
    by (simp add: is_system_def)
  have 5: "[\<lparr>role = ''user'', content = ''a''\<rparr>, \<lparr>role = ''assistant'', content = ''b''\<rparr>,
      \<lparr>role = ''user'', content = ''c''\<rparr>] = filter (\<lambda>m. \<not> is_system m) ?msgs"
    by (simp add: is_system_def)
  from C8_trim_keeps_system_and_recent [OF 1 2 3 4 5] show ?thesis
    by (simp add: is_system_def)
qed

text \<open>
  C9 as stated fails: every system message is kept, so three system messages under a
  limit of 2 leave a list of length 3.
\<close>

theorem C9_counterexample:
  "\<not> int (length (messages (add_messages \<lparr>messages = [], max_history = 2\<rparr>
        [(''system'', ''p''), (''system'', ''q''), (''system'', ''r'')]))) \<le> 2"
  by (simp add: add_message_def Let_def is_system_def slice_from_def)

text \<open>
  C9, amended. After each \<open>add_message\<close> call, from any state, the list is at most
  \<open>max_history\<close> long provided it holds fewer system messages than \<open>max_history\<close>.
\<close>

theorem C9_history_bounded:
  assumes "int (length (filter is_system (messages (add_message self r c)))) < max_history self"
  shows "int (length (messages (add_message self r c))) \<le> max_history self"
proof (cases "max_history self < int (length (messages self @ [\<lparr>role = r, content = c\<rparr>]))")
  case False
  then show ?thesis
    unfolding add_message_keep [OF refl False] by simp
next
  case True
  let ?msgs = "messages self @ [\<lparr>role = r, content = c\<rparr>]"
  let ?s = "int (length (filter is_system ?msgs))"
  note t = add_message_trim [OF refl True]
  have "filter is_system (messages (add_message self r c)) = filter is_system ?msgs"
    unfolding t by (rule filter_system_trimmed)
  with assms have p: "0 < max_history self - ?s"
    by simp
  have "length (slice_from (filter (\<lambda>m. \<not> is_system m) ?msgs) (- (max_history self - ?s)))
      \<le> nat (max_history self - ?s)"
    unfolding slice_from_last [OF p] by simp
  then show ?thesis
    unfolding t using p by simp
qed

theorem C9_witness:
  "int (length (filter is_system (messages (add_message
      \<lparr>messages = [\<lparr>role = ''system'', content = ''s''\<rparr>, \<lparr>role = ''user'', content = ''a''\<rparr>],
       max_history = 2\<rparr> ''assistant'' ''b'')))) < 2 \<and>
   int (length (messages (add_message
      \<lparr>messages = [\<lparr>role = ''system'', content = ''s''\<rparr>, \<lparr>role = ''user'', content = ''a''\<rparr>],
       max_history = 2\<rparr> ''assistant'' ''b''))) \<le> 2"
proof -
  let ?self = "\<lparr>messages = [\<lparr>role = ''system'', content = ''s''\<rparr>,
      \<lparr>role = ''user'', content = ''a''\<rparr>], max_history = 2\<rparr>"
  have h: "int (length (filter is_system (messages (add_message ?self ''assistant'' ''b''))))
      < max_history ?self"
    by (simp add: add_message_def Let_def is_system_def slice_from_def)
  from C9_history_bounded [OF h] h show ?thesis
    by simp
qed

end
